theory Spec2Isabelle
  imports Main "HOL-Library.Word"
begin

unbundle bit_operations_syntax

section \<open>Machine types\<close>

text \<open>
  The components run on a 32-bit core: \<open>uint\<close> is an unsigned 32-bit word.  The simulated
  quantities (\<open>value_t\<close>, \<open>voltage_t\<close>, \<open>current_t\<close>) are all the ISO fixed-point type
  \<open>accum\<close>, a signed s16.15 number held in one 32-bit word; it is modelled by its bit
  pattern.
\<close>

type_synonym uint = "32 word"
type_synonym accum = "32 word"

text \<open>
  Modelled from the spec: \<open>bitsk\<close> and \<open>kbits\<close> are the "fixed-point bit-pattern
  conversion helpers" of the numeric support library, which is not part of the sources.
  \<open>bitsk\<close> gives the 32 bits of an \<open>accum\<close> as a \<open>uint\<close> and \<open>kbits\<close> the \<open>accum\<close> with
  the given bits; neither changes a bit.
\<close>

definition bitsk :: "accum \<Rightarrow> uint" where
  "bitsk v = v"

definition kbits :: "uint \<Rightarrow> accum" where
  "kbits w = w"

definition UINT32_MAX :: uint where
  "UINT32_MAX = 0xFFFFFFFF"

section \<open>The packed neuron word (spin-nengo-ensemble.h)\<close>

text \<open>
  \<open>v_ref_voltage\<close> holds one word for each neuron: "4b refractory state, remainder
  voltages".  \<open>t_ref\<close> is the global the refractory state is set from.  A neuron index
  is a position of the array; the accessors are only called with \<open>n < n_neurons\<close>.
\<close>

record ensemble_buffers =
  v_ref_voltage :: "uint list"
  t_ref :: uint

definition neuron_voltage :: "ensemble_buffers \<Rightarrow> nat \<Rightarrow> accum" where
  "neuron_voltage s n = kbits (v_ref_voltage s ! n AND 0x0fffffff)"

definition set_neuron_voltage :: "ensemble_buffers \<Rightarrow> nat \<Rightarrow> accum \<Rightarrow> ensemble_buffers" where
  "set_neuron_voltage s n v =
     s\<lparr>v_ref_voltage := (v_ref_voltage s)
          [n := (v_ref_voltage s ! n AND 0xf0000000) OR (bitsk v AND 0x0fffffff)]\<rparr>"

definition neuron_refractory :: "ensemble_buffers \<Rightarrow> nat \<Rightarrow> uint" where
  "neuron_refractory s n = drop_bit 28 (v_ref_voltage s ! n AND 0xf0000000)"

definition set_neuron_refractory :: "ensemble_buffers \<Rightarrow> nat \<Rightarrow> ensemble_buffers" where
  "set_neuron_refractory s n = s\<lparr>v_ref_voltage := (v_ref_voltage s)[n := t_ref s]\<rparr>"

definition decrement_neuron_refractory :: "ensemble_buffers \<Rightarrow> nat \<Rightarrow> ensemble_buffers" where
  "decrement_neuron_refractory s n =
     s\<lparr>v_ref_voltage := (v_ref_voltage s)[n := v_ref_voltage s ! n - 0x10000000]\<rparr>"

section \<open>Observable actions\<close>

text \<open>
  The components act on the outside through calls of the kernel library, which is not part
  of the sources.  Each such call is recorded as an event, in program order; \<open>LoadRegion r\<close>
  marks the call of the loader that is handed \<open>region_start(r, address)\<close>.  \<open>io_printf\<close>
  is recorded with its format string.
\<close>

datatype callback_id = MCPL_PACKET_RECEIVED | TIMER_TICK

datatype event =
    Spin1Exit uint
  | InputFilterStep
  | SendMcPacket uint uint
  | DelayUs uint
  | IoPrintf string
  | LoadRegion nat
  | LeadAppConfigured
  | SetTimerTick uint
  | CallbackOn callback_id int
  | Spin1Start

section \<open>The filter component (filter_main.c)\<close>

text \<open>
  \<open>g_filter\<close> is the parameter struct; the vectors it points to are lists.  The fields
  \<open>input\<close> and \<open>output\<close> of the source are \<open>filter_input\<close> and \<open>filter_output\<close> here
  (both words are reserved in Isabelle).  \<open>simulation_ticks\<close> is a global of the common
  code.
\<close>

record filter_parameters =
  size_in :: uint
  size_out :: uint
  machine_timestep :: uint
  transmission_delay :: uint
  interpacket_pause :: uint
  filter_input :: "accum list"
  filter_output :: "accum list"
  transform :: "accum list"
  keys :: "uint list"

record filter_globals =
  g_filter :: filter_parameters
  delay_remaining :: uint
  simulation_ticks :: uint

text \<open>
  The two nested loops of \<open>filter_update\<close> that apply the transform.  The index
  \<open>j*g_filter.size_in + k\<close> is computed in \<open>uint\<close>.  The product of two \<open>accum\<close> values
  is the compiler's fixed-point multiplication, which the sources do not contain: it is
  the parameter \<open>kmul\<close>.  \<open>+=\<close> on \<open>accum\<close> is the 32-bit addition of the bit patterns.
\<close>

function transform_loop_k ::
  "(accum \<Rightarrow> accum \<Rightarrow> accum) \<Rightarrow> filter_parameters \<Rightarrow> nat \<Rightarrow> nat \<Rightarrow> filter_parameters" where
  "transform_loop_k kmul g j k =
     (if k < unat (size_in g)
      then transform_loop_k kmul
             (g\<lparr>filter_output := (filter_output g)
                  [j := filter_output g ! j +
                        kmul (transform g ! unat (word_of_nat j * size_in g + word_of_nat k))
                             (filter_input g ! k)]\<rparr>)
             j (Suc k)
      else g)"
  by pat_completeness auto
termination
  by (relation "measure (\<lambda>(kmul, g, j, k). unat (size_in g) - k)") simp_all

declare transform_loop_k.simps [simp del]

function transform_loop_j ::
  "(accum \<Rightarrow> accum \<Rightarrow> accum) \<Rightarrow> filter_parameters \<Rightarrow> nat \<Rightarrow> filter_parameters" where
  "transform_loop_j kmul g j =
     (if j < unat (size_out g)
      then transform_loop_j kmul
             (transform_loop_k kmul (g\<lparr>filter_output := (filter_output g)[j := 0]\<rparr>) j 0) (Suc j)
      else g)"
  by pat_completeness auto
termination
proof (relation "measure (\<lambda>(kmul, g, j). unat (size_out g) - j)")
  show "wf (measure (\<lambda>(kmul, g, j). unat (size_out g) - j))"
    by simp
next
  fix kmul :: "accum \<Rightarrow> accum \<Rightarrow> accum" and g :: filter_parameters and j :: nat
  assume j: "j < unat (size_out g)"
  have keep: "size_out (transform_loop_k kmul h i k) = size_out h" for h i k
  proof (induction kmul h i k rule: transform_loop_k.induct)
    case (1 kmul g j k)
    show ?case
    proof (cases "k < unat (size_in g)")
      case True
      then show ?thesis
        using "1.IH" by (subst transform_loop_k.simps) simp
    next
      case False
      then show ?thesis
        by (subst transform_loop_k.simps) simp
    qed
  qed
  show "((kmul, transform_loop_k kmul (g\<lparr>filter_output := (filter_output g)[j := 0]\<rparr>) j 0, Suc j),
         (kmul, g, j)) \<in> measure (\<lambda>(kmul, g, j). unat (size_out g) - j)"
    using j by (simp add: keep)
qed

declare transform_loop_j.simps [simp del]

text \<open>The loop that sends one packet for each output dimension, pausing after each.\<close>

function transmit_loop :: "filter_parameters \<Rightarrow> nat \<Rightarrow> event list" where
  "transmit_loop g d =
     (if d < unat (size_out g)
      then SendMcPacket (keys g ! d) (bitsk (filter_output g ! d))
           # DelayUs (interpacket_pause g)
           # transmit_loop g (Suc d)
      else [])"
  by pat_completeness auto
termination
  by (relation "measure (\<lambda>(g, d). unat (size_out g) - d)") simp_all

declare transmit_loop.simps [simp del]

text \<open>
  \<open>update_and_transmit\<close> is the body of \<open>filter_update\<close> after the halting check.
  \<open>input_filter_step(&g_input, true)\<close> belongs to the input filtering library, which is
  not part of the sources; it leaves the filtered input in the buffer \<open>g_filter.input\<close>
  points to.  The argument \<open>x\<close> is that vector for this tick.
\<close>

definition update_and_transmit ::
  "(accum \<Rightarrow> accum \<Rightarrow> accum) \<Rightarrow> filter_globals \<Rightarrow> accum list
     \<Rightarrow> event list \<times> filter_globals" where
  "update_and_transmit kmul st x =
     (let g1 = (g_filter st)\<lparr>filter_input := x\<rparr>;
          g2 = transform_loop_j kmul g1 0;
          remaining = delay_remaining st - 1
      in if remaining = 0
         then (InputFilterStep # transmit_loop g2 0,
               st\<lparr>g_filter := g2, delay_remaining := transmission_delay g2\<rparr>)
         else ([InputFilterStep],
               st\<lparr>g_filter := g2, delay_remaining := remaining\<rparr>))"

text \<open>
  \<open>filter_update\<close> is the timer callback.  \<open>spin1_exit\<close> asks the kernel to end the
  simulation and returns to its caller, so the statements after the check are executed
  on that tick too.
\<close>

definition filter_update ::
  "(accum \<Rightarrow> accum \<Rightarrow> accum) \<Rightarrow> filter_globals \<Rightarrow> uint \<Rightarrow> accum list
     \<Rightarrow> event list \<times> filter_globals" where
  "filter_update kmul st ticks x =
     (let halt = (if simulation_ticks st \<noteq> UINT32_MAX \<and> simulation_ticks st \<le> ticks
                  then [Spin1Exit 0] else []);
          r = update_and_transmit kmul st x
      in (halt @ fst r, snd r))"

text \<open>What a list of events holds: a request to exit, and the packets sent.\<close>

fun is_exit :: "event \<Rightarrow> bool" where
  "is_exit (Spin1Exit c) = True"
| "is_exit e = False"

fun mc_packets :: "event list \<Rightarrow> (uint \<times> uint) list" where
  "mc_packets [] = []"
| "mc_packets (SendMcPacket k p # es) = (k, p) # mc_packets es"
| "mc_packets (e # es) = mc_packets es"

text \<open>
  \<open>filter_updates\<close> is a sequence of invocations of \<open>filter_update\<close>, on consecutive
  tick numbers from \<open>t\<close>, with the filtered inputs \<open>xs\<close> of the successive ticks; it gives
  the events and the state of each invocation.
\<close>

fun filter_updates ::
  "(accum \<Rightarrow> accum \<Rightarrow> accum) \<Rightarrow> filter_globals \<Rightarrow> uint \<Rightarrow> accum list list
     \<Rightarrow> (event list \<times> filter_globals) list" where
  "filter_updates kmul st t [] = []"
| "filter_updates kmul st t (x # xs) =
     (let r = filter_update kmul st t x in r # filter_updates kmul (snd r) (t + 1) xs)"

text \<open>
  Modelled from the spec: the kernel's timer dispatch is not part of the sources.  The
  update phase is "invoked once per fixed timestep by a hardware timer interrupt", and a
  component that has called \<open>spin1_exit\<close> "exits its run loop permanently": no callback
  is dispatched after the one that asked to exit.
\<close>

fun timer_dispatch ::
  "(accum \<Rightarrow> accum \<Rightarrow> accum) \<Rightarrow> filter_globals \<Rightarrow> uint \<Rightarrow> accum list list
     \<Rightarrow> (event list \<times> filter_globals) list" where
  "timer_dispatch kmul st t [] = []"
| "timer_dispatch kmul st t (x # xs) =
     (let r = filter_update kmul st t x
      in r # (if list_ex is_exit (fst r) then [] else timer_dispatch kmul (snd r) (t + 1) xs))"

text \<open>
  The loaders.  \<open>addr\<close> is the region as a sequence of words.  The result of
  \<open>input_filter_initialise\<close> (a buffer, or \<open>NULL\<close>) and that of the allocation inside
  \<open>MALLOC_FAIL_FALSE\<close>, which returns false from the loader when the allocation fails,
  are not decided by the sources: they are arguments.  The byte counts handed to
  \<open>spin1_memcpy\<close> are computed in 32 bits.
\<close>

definition data_system ::
  "accum list option \<Rightarrow> (nat \<Rightarrow> uint) \<Rightarrow> filter_globals
     \<Rightarrow> bool \<times> event list \<times> filter_globals" where
  "data_system buffer addr st =
     (let g = (g_filter st)\<lparr>size_in := addr 0, size_out := addr 1, machine_timestep := addr 2,
                            transmission_delay := addr 3, interpacket_pause := addr 4\<rparr>;
          st1 = st\<lparr>g_filter := g, delay_remaining := transmission_delay g\<rparr>;
          ev = [IoPrintf ''[Filter] transmission delay = %d\<newline>'']
      in case buffer of
           None \<Rightarrow> (False, ev, st1\<lparr>g_filter := g\<lparr>filter_input := []\<rparr>\<rparr>)
         | Some b \<Rightarrow> (True, ev, st1\<lparr>g_filter := g\<lparr>filter_input := b\<rparr>\<rparr>))"

definition data_get_output_keys ::
  "bool \<Rightarrow> (nat \<Rightarrow> uint) \<Rightarrow> filter_globals \<Rightarrow> bool \<times> event list \<times> filter_globals" where
  "data_get_output_keys malloc_ok addr st =
     (if \<not> malloc_ok then (False, [], st)
      else
        let g = g_filter st;
            g' = g\<lparr>keys := map addr [0 ..< unat (size_out g * 4) div 4]\<rparr>
        in (True,
            replicate (unat (size_out g)) (IoPrintf ''g_filter.keys[%d] = %08x\<newline>''),
            st\<lparr>g_filter := g'\<rparr>))"

definition data_get_transform ::
  "bool \<Rightarrow> (nat \<Rightarrow> uint) \<Rightarrow> filter_globals \<Rightarrow> bool \<times> event list \<times> filter_globals" where
  "data_get_transform malloc_ok addr st =
     (if \<not> malloc_ok then (False, [], st)
      else
        let g = g_filter st;
            g' = g\<lparr>transform := map addr [0 ..< unat (size_in g * size_out g * 4) div 4]\<rparr>
        in (True,
            [IoPrintf ''Transform = ['']
            @ concat (replicate (unat (size_out g))
                (replicate (unat (size_in g)) (IoPrintf ''%k '') @ [IoPrintf ''\<newline>'']))
            @ [IoPrintf '']\<newline>''],
            st\<lparr>g_filter := g'\<rparr>))"

text \<open>
  What a boot of the filter component depends on: the configuration regions, the results
  of the two allocations and of \<open>input_filter_initialise\<close>, the results of the two loaders
  of the input filtering library, and whether this core is the lead core.
\<close>

record filter_boot =
  region_start :: "nat \<Rightarrow> nat \<Rightarrow> uint"
  input_filter_initialise :: "accum list option"
  malloc_keys :: bool
  input_filter_get_filters :: bool
  input_filter_get_filter_routes :: bool
  malloc_transform :: bool
  leadAp :: bool

definition filter_failed :: event where
  "filter_failed = IoPrintf ''[Filter] Failed to initialise.\<newline>''"

definition filter_c_main :: "filter_boot \<Rightarrow> filter_globals \<Rightarrow> event list \<times> filter_globals" where
  "filter_c_main env st0 =
     (case data_system (input_filter_initialise env) (region_start env 1) st0 of
        (ok1, ev1, st1) \<Rightarrow>
     if \<not> ok1 then (LoadRegion 1 # ev1 @ [filter_failed], st1) else
     (case data_get_output_keys (malloc_keys env) (region_start env 2) st1 of
        (ok2, ev2, st2) \<Rightarrow>
     if \<not> ok2 then (LoadRegion 1 # ev1 @ LoadRegion 2 # ev2 @ [filter_failed], st2) else
     if \<not> input_filter_get_filters env
     then (LoadRegion 1 # ev1 @ LoadRegion 2 # ev2 @ [LoadRegion 3, filter_failed], st2) else
     if \<not> input_filter_get_filter_routes env
     then (LoadRegion 1 # ev1 @ LoadRegion 2 # ev2
             @ [LoadRegion 3, LoadRegion 4, filter_failed], st2) else
     (case data_get_transform (malloc_transform env) (region_start env 5) st2 of
        (ok5, ev5, st5) \<Rightarrow>
     if \<not> ok5
     then (LoadRegion 1 # ev1 @ LoadRegion 2 # ev2
             @ [LoadRegion 3, LoadRegion 4, LoadRegion 5] @ ev5 @ [filter_failed], st5) else
     (LoadRegion 1 # ev1 @ LoadRegion 2 # ev2
        @ [LoadRegion 3, LoadRegion 4, LoadRegion 5] @ ev5
        @ (if leadAp env then [LeadAppConfigured] else [])
        @ [SetTimerTick (machine_timestep (g_filter st5)),
           CallbackOn MCPL_PACKET_RECEIVED (- 1),
           CallbackOn TIMER_TICK 2,
           Spin1Start],
      st5))))"

section \<open>The boot of the ensemble component\<close>

text \<open>
  \<open>load_chain\<close> is a condition \<open>!load(r1) || !load(r2) || ...\<close>: the loaders are called
  in order until the first that returns false.
\<close>

fun load_chain :: "(nat \<times> bool) list \<Rightarrow> event list \<times> bool" where
  "load_chain [] = ([], True)"
| "load_chain ((r, ok) # rest) =
     (if ok then (case load_chain rest of (ev, res) \<Rightarrow> (LoadRegion r # ev, res))
      else ([LoadRegion r], False))"

text \<open>
  None of the loaders that \<open>c_main\<close> of the ensemble calls is part of the sources; the
  header declares \<open>data_system\<close>, \<open>data_get_bias\<close>, \<open>data_get_encoders\<close>,
  \<open>data_get_decoders\<close> and \<open>data_get_keys\<close> with result type \<open>bool\<close>.  A boot is given by
  what each loader and the allocation of the inhibitory gains return, and by the two
  values \<open>c_main\<close> reads from \<open>g_ensemble\<close>.
\<close>

record ensemble_boot =
  ens_data_system :: bool
  ens_data_get_bias :: bool
  ens_data_get_encoders :: bool
  ens_data_get_decoders :: bool
  ens_data_get_keys :: bool
  ens_malloc_inhib_gain :: bool
  ens_get_filters :: bool
  ens_get_filter_routes :: bool
  ens_get_filters_inhibitory :: bool
  ens_get_filter_routes_inhibitory :: bool
  ens_get_filters_modulatory :: bool
  ens_get_filter_routes_modulatory :: bool
  ens_get_pes :: bool
  ens_record_buffer_initialise :: bool
  ens_n_neurons :: uint
  ens_machine_timestep :: uint
  ens_leadAp :: bool

definition ensemble_failed :: event where
  "ensemble_failed = IoPrintf ''[Ensemble] Failed to start.\<newline>''"

text \<open>
  The calls for regions 2 to 5 are statements: what they return is not looked at.
\<close>

definition ensemble_c_main :: "ensemble_boot \<Rightarrow> event list" where
  "ensemble_c_main env =
     IoPrintf ''[Ensemble] C_MAIN\<newline>'' # LoadRegion 1 #
     (if \<not> ens_data_system env then [ensemble_failed] else
      [LoadRegion 2, LoadRegion 3, LoadRegion 4, LoadRegion 5] @
      (if \<not> ens_malloc_inhib_gain env
       then [IoPrintf ''[Ensemble] Failed to malloc inhib gains.\<newline>''] else
       LoadRegion 10 #
       replicate (unat (ens_n_neurons env)) (IoPrintf ''Inhib gain[%d] = %k\<newline>'') @
       (case load_chain
               [(6, ens_get_filters env), (7, ens_get_filter_routes env),
                (8, ens_get_filters_inhibitory env), (9, ens_get_filter_routes_inhibitory env),
                (11, ens_get_filters_modulatory env), (12, ens_get_filter_routes_modulatory env)]
        of (ev, ok) \<Rightarrow>
        ev @
        (if \<not> ok then [ensemble_failed] else
         LoadRegion 13 #
         (if \<not> ens_get_pes env then [ensemble_failed] else
          LoadRegion 15 #
          (if \<not> ens_record_buffer_initialise env then [ensemble_failed] else
           IoPrintf ''[Ensemble] C_MAIN Configuring system.\<newline>'' #
           (if ens_leadAp env then [LeadAppConfigured] else []) @
           [IoPrintf ''[Ensemble] C_MAIN Set timer and spin1_start.\<newline>'',
            SetTimerTick (ens_machine_timestep env),
            Spin1Start]))))))"

section \<open>Definitions used in the statements\<close>

text \<open>
  \<open>dot_from kmul g j k0\<close> is the part of the sum for row \<open>j\<close> that starts at column
  \<open>k0\<close>, with the index as the code computes it.
\<close>

definition dot_from ::
  "(accum \<Rightarrow> accum \<Rightarrow> accum) \<Rightarrow> filter_parameters \<Rightarrow> nat \<Rightarrow> nat \<Rightarrow> accum" where
  "dot_from kmul g j k0 =
     (\<Sum>k = k0 ..< unat (size_in g).
        kmul (transform g ! unat (word_of_nat j * size_in g + word_of_nat k)) (filter_input g ! k))"

text \<open>
  One fixed-point multiplication, for the examples: the product of the two s16.15
  numbers, rounded down to a multiple of \<open>2^-15\<close>.
\<close>

definition mul_s1615 :: "accum \<Rightarrow> accum \<Rightarrow> accum" where
  "mul_s1615 a b = word_of_int ((sint a * sint b) div 2 ^ 15)"

definition example_filter :: filter_globals where
  "example_filter =
     \<lparr>g_filter = \<lparr>size_in = 2, size_out = 1, machine_timestep = 1000,
          transmission_delay = 2, interpacket_pause = 1,
          filter_input = [0, 0], filter_output = [0x1234],
          transform = [0x8000, 0xFFFF8000], keys = [0xAB00]\<rparr>,
      delay_remaining = 2, simulation_ticks = 3\<rparr>"

text \<open>
  What a boot trace holds: the regions whose loaders were called, in order, and the
  actions by which a component starts to run or sends (setting the timer period,
  registering a callback, starting the kernel, sending a packet).
\<close>

fun loaded_regions :: "event list \<Rightarrow> nat list" where
  "loaded_regions [] = []"
| "loaded_regions (LoadRegion r # es) = r # loaded_regions es"
| "loaded_regions (e # es) = loaded_regions es"

fun is_run_action :: "event \<Rightarrow> bool" where
  "is_run_action (SetTimerTick p) = True"
| "is_run_action (CallbackOn c p) = True"
| "is_run_action Spin1Start = True"
| "is_run_action (SendMcPacket k p) = True"
| "is_run_action e = False"

definition filter_loaders_called :: "filter_boot \<Rightarrow> nat" where
  "filter_loaders_called env =
     (if input_filter_initialise env = None then 1
      else if \<not> malloc_keys env then 2
      else if \<not> input_filter_get_filters env then 3
      else if \<not> input_filter_get_filter_routes env then 4
      else 5)"

definition filter_loaders_succeed :: "filter_boot \<Rightarrow> bool" where
  "filter_loaders_succeed env =
     (input_filter_initialise env \<noteq> None \<and> malloc_keys env \<and> input_filter_get_filters env
      \<and> input_filter_get_filter_routes env \<and> malloc_transform env)"

text \<open>The states and boots of the examples.\<close>

definition example_boot :: filter_boot where
  "example_boot =
     \<lparr>region_start = (\<lambda>r i. if r = 1 then [2, 1, 1000, 2, 1] ! i else 0),
      input_filter_initialise = Some [0, 0],
      malloc_keys = True,
      input_filter_get_filters = False,
      input_filter_get_filter_routes = True,
      malloc_transform = True,
      leadAp = False\<rparr>"

definition bias_failure_boot :: ensemble_boot where
  "bias_failure_boot =
     \<lparr>ens_data_system = True,
      ens_data_get_bias = False,
      ens_data_get_encoders = True,
      ens_data_get_decoders = True,
      ens_data_get_keys = True,
      ens_malloc_inhib_gain = True,
      ens_get_filters = True,
      ens_get_filter_routes = True,
      ens_get_filters_inhibitory = True,
      ens_get_filter_routes_inhibitory = True,
      ens_get_filters_modulatory = True,
      ens_get_filter_routes_modulatory = True,
      ens_get_pes = True,
      ens_record_buffer_initialise = True,
      ens_n_neurons = 2,
      ens_machine_timestep = 1000,
      ens_leadAp = False\<rparr>"

section \<open>Facts about the two bit fields\<close>

lemma hi_field: "drop_bit 28 (w AND (0xf0000000 :: uint)) = drop_bit 28 w"
proof -
  have m: "(0xf0000000 :: uint) = push_bit 28 (mask 4)"
    by (simp add: mask_eq_exp_minus_1)
  show ?thesis
    unfolding m
    by (rule bit_word_eqI) (auto simp: bit_simps dest: bit_imp_le_length)
qed

lemma lo_field: "w AND (0x0fffffff :: uint) = take_bit 28 w"
proof -
  have m: "(0x0fffffff :: uint) = mask 28"
    by (simp add: mask_eq_exp_minus_1)
  show ?thesis
    unfolding m by (simp add: take_bit_eq_mask)
qed

lemma unat_drop28: "unat (drop_bit 28 (w :: uint)) = unat w div 2 ^ 28"
  by (simp add: drop_bit_eq_div unat_div)

lemma div_sub28: "2 ^ 28 \<le> (a::nat) \<Longrightarrow> (a - 2 ^ 28) div 2 ^ 28 = a div 2 ^ 28 - 1"
  by (simp add: le_div_geq)

lemma unat_sub28:
  assumes ge: "2 ^ 28 \<le> unat (w::uint)"
  shows "unat (w - 0x10000000) = unat w - 2 ^ 28"
proof -
  have "(0x10000000 :: uint) \<le> w"
    using ge by (simp add: word_le_nat_alt)
  then show ?thesis
    by (simp add: unat_sub)
qed

lemma unat_drop28_dec:
  assumes "1 \<le> drop_bit 28 (w :: uint)"
  shows "unat (drop_bit 28 (w - 0x10000000)) = unat (drop_bit 28 w) - 1"
proof -
  have "1 \<le> unat (drop_bit 28 w)"
    using assms by (simp add: word_le_nat_alt)
  then have ge: "2 ^ 28 \<le> unat w"
    unfolding unat_drop28 by (rule_tac ccontr) simp
  show ?thesis
    using ge by (simp only: unat_drop28 unat_sub28 div_sub28)
qed

lemma take28_dec: "take_bit 28 ((w :: uint) - 0x10000000) = take_bit 28 w"
proof -
  have d: "(2 ^ 28 :: int) dvd 2 ^ 32"
    by (rule le_imp_power_dvd) simp
  have "uint (w - 0x10000000) = (uint w - 2 ^ 28) mod 2 ^ 32"
    by (simp add: uint_word_ariths)
  then have "uint (w - 0x10000000) mod 2 ^ 28 = (uint w - 2 ^ 28) mod 2 ^ 28"
    using d by (simp only: mod_mod_cancel)
  also have "\<dots> = uint w mod 2 ^ 28"
    by (simp add: mod_diff_right_eq [symmetric])
  finally have "take_bit 28 (uint (w - 0x10000000)) = take_bit 28 (uint w)"
    by (simp only: take_bit_eq_mod)
  then have "uint (take_bit 28 (w - 0x10000000)) = uint (take_bit 28 w)"
    by (simp only: unsigned_take_bit_eq)
  then show ?thesis
    by (simp only: word_uint_eq_iff)
qed

lemma set_voltage_hi:
  "drop_bit 28 (((w :: uint) AND 0xf0000000) OR (v AND 0x0fffffff)) = drop_bit 28 w"
proof -
  have m: "(0xf0000000 :: uint) = push_bit 28 (mask 4)" "(0x0fffffff :: uint) = mask 28"
    by (simp_all add: mask_eq_exp_minus_1)
  show ?thesis
    unfolding m by (rule bit_word_eqI) (auto simp: bit_simps dest: bit_imp_le_length)
qed

lemma set_voltage_lo:
  "(((w :: uint) AND 0xf0000000) OR (v AND 0x0fffffff)) AND 0x0fffffff = v AND 0x0fffffff"
proof -
  have m: "(0xf0000000 :: uint) = push_bit 28 (mask 4)" "(0x0fffffff :: uint) = mask 28"
    by (simp_all add: mask_eq_exp_minus_1)
  show ?thesis
    unfolding m by (rule bit_word_eqI) (auto simp: bit_simps dest: bit_imp_le_length)
qed

lemma fits28: "unat (v :: uint) < 2 ^ 28 \<Longrightarrow> take_bit 28 v = v"
  by (metis unsigned_take_bit_eq word_eq_iff_unsigned take_bit_nat_eq_self_iff)

section \<open>The packed neuron word\<close>

text \<open>
  Claim C9.  For a neuron \<open>n\<close> and a voltage \<open>v\<close>, \<open>set_neuron_voltage(n, v)\<close> leaves
  the refractory counter \<open>neuron_refractory(n)\<close> as it was, and \<open>neuron_voltage(n)\<close> then
  returns the value whose bit pattern is the low 28 bits of \<open>bitsk(v)\<close>; so a voltage
  whose bit pattern fits in 28 bits is read back unchanged.
\<close>

theorem set_neuron_voltage_frame_roundtrip:
  assumes "n < length (v_ref_voltage s)"
  shows "neuron_refractory (set_neuron_voltage s n v) n = neuron_refractory s n
       \<and> bitsk (neuron_voltage (set_neuron_voltage s n v) n) = bitsk v AND 0x0fffffff
       \<and> (unat (bitsk v) < 2 ^ 28 \<longrightarrow> neuron_voltage (set_neuron_voltage s n v) n = v)"
proof -
  let ?w = "(v_ref_voltage s ! n AND 0xf0000000) OR (bitsk v AND 0x0fffffff)"
  have w: "v_ref_voltage (set_neuron_voltage s n v) ! n = ?w"
    using assms by (simp add: set_neuron_voltage_def)
  have c: "neuron_refractory (set_neuron_voltage s n v) n = neuron_refractory s n"
    unfolding neuron_refractory_def w hi_field by (rule set_voltage_hi)
  have b: "bitsk (neuron_voltage (set_neuron_voltage s n v) n) = bitsk v AND 0x0fffffff"
    unfolding neuron_voltage_def w bitsk_def kbits_def by (rule set_voltage_lo)
  have r: "neuron_voltage (set_neuron_voltage s n v) n = v" if "unat (bitsk v) < 2 ^ 28"
    using b that by (simp add: bitsk_def lo_field fits28)
  from c b r show ?thesis by blast
qed

theorem set_neuron_voltage_frame_roundtrip_witness:
  "neuron_refractory (set_neuron_voltage \<lparr>v_ref_voltage = [0x30000005], t_ref = 0\<rparr> 0 0x123) 0 = 3
   \<and> neuron_voltage (set_neuron_voltage \<lparr>v_ref_voltage = [0x30000005], t_ref = 0\<rparr> 0 0x123) 0 = 0x123"
  using set_neuron_voltage_frame_roundtrip
    [of 0 "\<lparr>v_ref_voltage = [0x30000005], t_ref = 0\<rparr>" "0x123"]
  by (simp add: neuron_refractory_def bitsk_def)

lemma decrement_once:
  assumes n: "n < length (v_ref_voltage s)" and c: "1 \<le> neuron_refractory s n"
  shows "unat (neuron_refractory (decrement_neuron_refractory s n) n) =
           unat (neuron_refractory s n) - 1"
    and "v_ref_voltage (decrement_neuron_refractory s n) ! n AND 0x0fffffff =
           v_ref_voltage s ! n AND 0x0fffffff"
    and "length (v_ref_voltage (decrement_neuron_refractory s n)) = length (v_ref_voltage s)"
proof -
  have w: "v_ref_voltage (decrement_neuron_refractory s n) ! n = v_ref_voltage s ! n - 0x10000000"
    using n by (simp add: decrement_neuron_refractory_def)
  show "unat (neuron_refractory (decrement_neuron_refractory s n) n) =
           unat (neuron_refractory s n) - 1"
    using c unfolding neuron_refractory_def w hi_field by (rule unat_drop28_dec)
  show "v_ref_voltage (decrement_neuron_refractory s n) ! n AND 0x0fffffff =
           v_ref_voltage s ! n AND 0x0fffffff"
    unfolding w lo_field by (rule take28_dec)
  show "length (v_ref_voltage (decrement_neuron_refractory s n)) = length (v_ref_voltage s)"
    by (simp add: decrement_neuron_refractory_def)
qed

lemma decrement_repeated:
  assumes "n < length (v_ref_voltage s)" and "k \<le> unat (neuron_refractory s n)"
  shows "unat (neuron_refractory (((\<lambda>s. decrement_neuron_refractory s n) ^^ k) s) n) =
           unat (neuron_refractory s n) - k
       \<and> v_ref_voltage (((\<lambda>s. decrement_neuron_refractory s n) ^^ k) s) ! n AND 0x0fffffff =
           v_ref_voltage s ! n AND 0x0fffffff
       \<and> length (v_ref_voltage (((\<lambda>s. decrement_neuron_refractory s n) ^^ k) s)) =
           length (v_ref_voltage s)"
  using assms
proof (induction k)
  case 0
  show ?case by simp
next
  case (Suc k)
  let ?s = "((\<lambda>s. decrement_neuron_refractory s n) ^^ k) s"
  from Suc have ih:
    "unat (neuron_refractory ?s n) = unat (neuron_refractory s n) - k"
    "v_ref_voltage ?s ! n AND 0x0fffffff = v_ref_voltage s ! n AND 0x0fffffff"
    "length (v_ref_voltage ?s) = length (v_ref_voltage s)"
    by simp_all
  have n: "n < length (v_ref_voltage ?s)"
    using Suc.prems ih by simp
  have "1 \<le> unat (neuron_refractory ?s n)"
    using Suc.prems ih by simp
  then have c: "1 \<le> neuron_refractory ?s n"
    by (simp add: word_le_nat_alt)
  show ?case
    using decrement_once [OF n c] ih by simp
qed

text \<open>
  Claim C7.  For a neuron \<open>n\<close> whose refractory counter is at least 1, one call of
  \<open>decrement_neuron_refractory(n)\<close> takes exactly one from the counter and leaves the
  low 28 bits of \<open>v_ref_voltage[n]\<close> unchanged; after \<open>k\<close> calls, for \<open>k\<close> up to the
  initial counter, the counter is the initial counter minus \<open>k\<close>, so it is zero after
  exactly as many calls as the initial counter and not before.
\<close>

theorem decrement_neuron_refractory_counts_down:
  assumes "n < length (v_ref_voltage s)"
  shows "(1 \<le> neuron_refractory s n \<longrightarrow>
            unat (neuron_refractory (decrement_neuron_refractory s n) n) =
              unat (neuron_refractory s n) - 1
          \<and> v_ref_voltage (decrement_neuron_refractory s n) ! n AND 0x0fffffff =
              v_ref_voltage s ! n AND 0x0fffffff)
       \<and> (k \<le> unat (neuron_refractory s n) \<longrightarrow>
            unat (neuron_refractory (((\<lambda>s. decrement_neuron_refractory s n) ^^ k) s) n) =
              unat (neuron_refractory s n) - k)"
  using decrement_once (1,2) [OF assms] decrement_repeated [OF assms] by blast

theorem decrement_neuron_refractory_counts_down_witness:
  "neuron_refractory \<lparr>v_ref_voltage = [0x20000007], t_ref = 0\<rparr> 0 = 2
   \<and> unat (neuron_refractory
         (decrement_neuron_refractory \<lparr>v_ref_voltage = [0x20000007], t_ref = 0\<rparr> 0) 0) = 1
   \<and> unat (neuron_refractory (((\<lambda>s. decrement_neuron_refractory s 0) ^^ 2)
         \<lparr>v_ref_voltage = [0x20000007], t_ref = 0\<rparr>) 0) = 0"
  using decrement_neuron_refractory_counts_down
    [of 0 "\<lparr>v_ref_voltage = [0x20000007], t_ref = 0\<rparr>" 2]
  by (simp add: neuron_refractory_def)

lemma set_neuron_refractory_step_count:
  assumes "n < length (v_ref_voltage s)" and "unat (t_ref s) < 2 ^ 28"
  shows "neuron_refractory (set_neuron_refractory s n) n = 0"
    and "bitsk (neuron_voltage (set_neuron_refractory s n) n) = t_ref s"
proof -
  have w: "v_ref_voltage (set_neuron_refractory s n) ! n = t_ref s"
    using assms(1) by (simp add: set_neuron_refractory_def)
  have "unat (drop_bit 28 (t_ref s)) = 0"
    using assms(2) by (simp only: unat_drop28) simp
  then have "drop_bit 28 (t_ref s) = 0"
    by (simp only: unat_eq_0)
  then show "neuron_refractory (set_neuron_refractory s n) n = 0"
    unfolding neuron_refractory_def w hi_field .
  show "bitsk (neuron_voltage (set_neuron_refractory s n) n) = t_ref s"
    unfolding neuron_voltage_def w bitsk_def kbits_def lo_field
    using assms(2) by (rule fits28)
qed

text \<open>
  Claim C6.  The claim is that after \<open>set_neuron_refractory(n)\<close> the counter read back
  by \<open>neuron_refractory(n)\<close> is the configured \<open>t_ref\<close> and the voltage read back by
  \<open>neuron_voltage(n)\<close> is the zero voltage, as the comment of the function says ("zero
  voltage, set timer").  The header gives \<open>t_ref\<close> in steps.  With \<open>t_ref\<close> of 2 steps
  the word written is 2: the counter read back is 0, not 2, and the voltage read back
  has the bit pattern 2, not 0.
\<close>

theorem set_neuron_refractory_two_steps:
  "neuron_refractory (set_neuron_refractory \<lparr>v_ref_voltage = [0], t_ref = 2\<rparr> 0) 0 = 0
   \<and> neuron_refractory (set_neuron_refractory \<lparr>v_ref_voltage = [0], t_ref = 2\<rparr> 0) 0
       \<noteq> t_ref \<lparr>v_ref_voltage = [0], t_ref = 2\<rparr>
   \<and> bitsk (neuron_voltage (set_neuron_refractory \<lparr>v_ref_voltage = [0], t_ref = 2\<rparr> 0) 0) = 2
   \<and> neuron_voltage (set_neuron_refractory \<lparr>v_ref_voltage = [0], t_ref = 2\<rparr> 0) 0 \<noteq> kbits 0"
  by (simp add: neuron_refractory_def neuron_voltage_def set_neuron_refractory_def
      kbits_def bitsk_def)

section \<open>The transform\<close>

lemma dot_from_output_irrelevant [simp]:
  "dot_from kmul (g\<lparr>filter_output := out\<rparr>) j k = dot_from kmul g j k"
  by (simp add: dot_from_def)

lemma dot_from_step:
  "k < unat (size_in g) \<Longrightarrow>
   dot_from kmul g j k =
     kmul (transform g ! unat (word_of_nat j * size_in g + word_of_nat k)) (filter_input g ! k)
     + dot_from kmul g j (Suc k)"
  by (simp add: dot_from_def sum.atLeast_Suc_lessThan)

lemma dot_from_done: "\<not> k < unat (size_in g) \<Longrightarrow> dot_from kmul g j k = 0"
  by (simp add: dot_from_def)

lemma transform_loop_k_result:
  "j < length (filter_output g) \<Longrightarrow>
   transform_loop_k kmul g j k =
     g\<lparr>filter_output := (filter_output g)[j := filter_output g ! j + dot_from kmul g j k]\<rparr>"
proof (induction kmul g j k rule: transform_loop_k.induct)
  case (1 kmul g j k)
  show ?case
  proof (cases "k < unat (size_in g)")
    case True
    then show ?thesis
      using "1.IH" "1.prems"
      by (subst transform_loop_k.simps) (simp add: dot_from_step [of k g] add.assoc)
  next
    case False
    then show ?thesis
      by (subst transform_loop_k.simps) (simp add: dot_from_done)
  qed
qed

lemma transform_loop_j_fields:
  "unat (size_out g) \<le> length (filter_output g) \<Longrightarrow>
   \<exists>out. transform_loop_j kmul g j = g\<lparr>filter_output := out\<rparr>
       \<and> length out = length (filter_output g)
       \<and> (\<forall>i < length out. out ! i =
            (if j \<le> i \<and> i < unat (size_out g) then dot_from kmul g i 0 else filter_output g ! i))"
proof (induction kmul g j rule: transform_loop_j.induct)
  case (1 kmul g j)
  show ?case
  proof (cases "j < unat (size_out g)")
    case True
    let ?g0 = "g\<lparr>filter_output := (filter_output g)[j := 0]\<rparr>"
    let ?g1 = "g\<lparr>filter_output := (filter_output g)[j := dot_from kmul g j 0]\<rparr>"
    have j: "j < length (filter_output g)"
      using True "1.prems" by simp
    have k: "transform_loop_k kmul ?g0 j 0 = ?g1"
      using j by (simp add: transform_loop_k_result)
    have "unat (size_out ?g1) \<le> length (filter_output ?g1)"
      using "1.prems" by simp
    from "1.IH" [OF True, unfolded k, OF this]
    obtain out where out: "transform_loop_j kmul ?g1 (Suc j) = ?g1\<lparr>filter_output := out\<rparr>"
        "length out = length (filter_output ?g1)"
        "\<forall>i < length out. out ! i =
            (if Suc j \<le> i \<and> i < unat (size_out ?g1) then dot_from kmul ?g1 i 0
             else filter_output ?g1 ! i)"
      by blast
    have "transform_loop_j kmul g j = g\<lparr>filter_output := out\<rparr>"
      using True out(1) by (subst transform_loop_j.simps) (simp add: k)
    moreover have "length out = length (filter_output g)"
      using out(2) by simp
    moreover have "\<forall>i < length out. out ! i =
            (if j \<le> i \<and> i < unat (size_out g) then dot_from kmul g i 0 else filter_output g ! i)"
      using out(2,3) True j by (auto simp: nth_list_update)
    ultimately show ?thesis by blast
  next
    case False
    then show ?thesis
      by (subst transform_loop_j.simps) (auto intro!: exI [of _ "filter_output g"])
  qed
qed

lemma transform_index:
  assumes "j < unat (so :: uint)" "k < unat (si :: uint)" "unat so * unat si < 2 ^ 32"
  shows "unat (word_of_nat j * si + word_of_nat k) = j * unat si + k"
proof -
  have "Suc j * unat si \<le> unat so * unat si"
    using assms(1) by (intro mult_le_mono1) simp
  then have lt: "j * unat si + k < 2 ^ 32"
    using assms(2,3) by simp
  have "word_of_nat j * si + word_of_nat k = (word_of_nat (j * unat si + k) :: uint)"
    by simp
  then show ?thesis
    using lt by (simp only: unat_of_nat) simp
qed

text \<open>
  Claim C2.  For a transform of \<open>size_out\<close> rows and \<open>size_in\<close> columns and a filtered
  input \<open>x\<close>, an invocation of \<open>filter_update\<close> sets \<open>output[j]\<close>, for each
  \<open>j < size_out\<close>, to the sum over \<open>k < size_in\<close> of the fixed-point products
  \<open>transform[j*size_in + k] * input[k]\<close>, whatever \<open>output\<close> held before.
\<close>

theorem filter_update_output_is_matrix_vector_product:
  assumes "length (filter_output (g_filter st)) = unat (size_out (g_filter st))"
      and "length (transform (g_filter st)) = unat (size_out (g_filter st)) * unat (size_in (g_filter st))"
      and "length (transform (g_filter st)) < 2 ^ 32"
      and "length x = unat (size_in (g_filter st))"
      and "j < unat (size_out (g_filter st))"
  shows "filter_output (g_filter (snd (filter_update kmul st ticks x))) ! j =
           (\<Sum>k < unat (size_in (g_filter st)).
              kmul (transform (g_filter st) ! (j * unat (size_in (g_filter st)) + k)) (x ! k))"
proof -
  let ?g = "(g_filter st)\<lparr>filter_input := x\<rparr>"
  have "unat (size_out ?g) \<le> length (filter_output ?g)"
    using assms(1) by simp
  from transform_loop_j_fields [OF this, of kmul 0]
  obtain out where out: "transform_loop_j kmul ?g 0 = ?g\<lparr>filter_output := out\<rparr>"
      "length out = length (filter_output ?g)"
      "\<forall>i < length out. out ! i =
         (if 0 \<le> i \<and> i < unat (size_out ?g) then dot_from kmul ?g i 0 else filter_output ?g ! i)"
    by blast
  have "filter_output (g_filter (snd (filter_update kmul st ticks x))) = out"
    by (simp add: filter_update_def update_and_transmit_def Let_def out(1))
  moreover have "out ! j = dot_from kmul ?g j 0"
    using out(2,3) assms(1,5) by simp
  moreover have "dot_from kmul ?g j 0 =
      (\<Sum>k < unat (size_in (g_filter st)).
         kmul (transform (g_filter st) ! (j * unat (size_in (g_filter st)) + k)) (x ! k))"
    unfolding dot_from_def atLeast0LessThan
    using assms(2,3,5) by (intro sum.cong) (simp_all add: transform_index)
  ultimately show ?thesis by simp
qed

theorem filter_update_output_is_matrix_vector_product_witness:
  "filter_output (g_filter (snd (filter_update mul_s1615 example_filter 1 [0x18000, 0x8000]))) ! 0
     = 0x10000"
proof -
  have two: "{..<2::nat} = {0, 1}"
    by auto
  have "filter_output (g_filter (snd (filter_update mul_s1615 example_filter 1 [0x18000, 0x8000]))) ! 0
      = (\<Sum>k < unat (size_in (g_filter example_filter)).
          mul_s1615 (transform (g_filter example_filter)
                       ! (0 * unat (size_in (g_filter example_filter)) + k))
                    ([0x18000, 0x8000] ! k))"
    by (rule filter_update_output_is_matrix_vector_product)
       (simp_all add: example_filter_def)
  then show ?thesis
    by (simp add: example_filter_def two mul_s1615_def)
qed

section \<open>Transmission\<close>

lemma transform_loop_k_frame:
  "\<exists>out. transform_loop_k kmul g j k = g\<lparr>filter_output := out\<rparr>"
proof (induction kmul g j k rule: transform_loop_k.induct)
  case (1 kmul g j k)
  show ?case
  proof (cases "k < unat (size_in g)")
    case True
    from "1.IH" [OF True] obtain out where
      "transform_loop_k kmul
         (g\<lparr>filter_output := (filter_output g)
              [j := filter_output g ! j +
                    kmul (transform g ! unat (word_of_nat j * size_in g + word_of_nat k))
                         (filter_input g ! k)]\<rparr>) j (Suc k)
       = g\<lparr>filter_output := out\<rparr>"
      by auto
    then show ?thesis
      using True by (subst transform_loop_k.simps) auto
  next
    case False
    then show ?thesis
      by (subst transform_loop_k.simps) (auto intro: exI [of _ "filter_output g"])
  qed
qed

lemma transform_loop_j_frame:
  "\<exists>out. transform_loop_j kmul g j = g\<lparr>filter_output := out\<rparr>"
proof (induction kmul g j rule: transform_loop_j.induct)
  case (1 kmul g j)
  show ?case
  proof (cases "j < unat (size_out g)")
    case True
    obtain o1 where o1:
      "transform_loop_k kmul (g\<lparr>filter_output := (filter_output g)[j := 0]\<rparr>) j 0
       = g\<lparr>filter_output := o1\<rparr>"
      using transform_loop_k_frame [of kmul "g\<lparr>filter_output := (filter_output g)[j := 0]\<rparr>" j 0]
      by auto
    from "1.IH" [OF True] obtain out where
      "transform_loop_j kmul (g\<lparr>filter_output := o1\<rparr>) (Suc j) = g\<lparr>filter_output := out\<rparr>"
      unfolding o1 by auto
    then show ?thesis
      using True by (subst transform_loop_j.simps) (auto simp: o1)
  next
    case False
    then show ?thesis
      by (subst transform_loop_j.simps) (auto intro: exI [of _ "filter_output g"])
  qed
qed

lemma transform_loop_j_other_fields:
  "size_out (transform_loop_j kmul g j) = size_out g"
  "keys (transform_loop_j kmul g j) = keys g"
  "transmission_delay (transform_loop_j kmul g j) = transmission_delay g"
  "interpacket_pause (transform_loop_j kmul g j) = interpacket_pause g"
  using transform_loop_j_frame [of kmul g j] by auto

lemma mc_packets_append: "mc_packets (es @ fs) = mc_packets es @ mc_packets fs"
  by (induction es rule: mc_packets.induct) simp_all

lemma transmit_loop_packets:
  "mc_packets (transmit_loop g d) =
     map (\<lambda>d. (keys g ! d, bitsk (filter_output g ! d))) [d ..< unat (size_out g)]"
proof (induction g d rule: transmit_loop.induct)
  case (1 g d)
  show ?case
  proof (cases "d < unat (size_out g)")
    case True
    then show ?thesis
      using "1.IH" by (subst transmit_loop.simps) (simp add: upt_conv_Cons)
  next
    case False
    then show ?thesis
      by (subst transmit_loop.simps) simp
  qed
qed

lemma transmit_loop_no_exit: "\<not> list_ex is_exit (transmit_loop g d)"
proof (induction g d rule: transmit_loop.induct)
  case (1 g d)
  show ?case
  proof (cases "d < unat (size_out g)")
    case True
    then show ?thesis
      using "1.IH" by (subst transmit_loop.simps) simp
  next
    case False
    then show ?thesis
      by (subst transmit_loop.simps) simp
  qed
qed

lemma update_and_transmit_delay:
  "delay_remaining (snd (update_and_transmit kmul st x)) =
     (if delay_remaining st = 1 then transmission_delay (g_filter st)
      else delay_remaining st - 1)"
  by (simp add: update_and_transmit_def Let_def transform_loop_j_other_fields)

lemma update_and_transmit_packets:
  "mc_packets (fst (update_and_transmit kmul st x)) =
     (if delay_remaining st = 1
      then map (\<lambda>d. (keys (g_filter st) ! d,
                       bitsk (filter_output (g_filter (snd (update_and_transmit kmul st x))) ! d)))
               [0 ..< unat (size_out (g_filter st))]
      else [])"
  by (simp add: update_and_transmit_def Let_def transform_loop_j_other_fields
      transmit_loop_packets)

lemma update_and_transmit_fields:
  "simulation_ticks (snd (update_and_transmit kmul st x)) = simulation_ticks st"
  "size_out (g_filter (snd (update_and_transmit kmul st x))) = size_out (g_filter st)"
  "keys (g_filter (snd (update_and_transmit kmul st x))) = keys (g_filter st)"
  "transmission_delay (g_filter (snd (update_and_transmit kmul st x))) =
     transmission_delay (g_filter st)"
  by (simp_all add: update_and_transmit_def Let_def transform_loop_j_other_fields)

lemma update_and_transmit_no_exit: "\<not> list_ex is_exit (fst (update_and_transmit kmul st x))"
  by (simp add: update_and_transmit_def Let_def transmit_loop_no_exit)

lemma filter_update_snd: "snd (filter_update kmul st t x) = snd (update_and_transmit kmul st x)"
  by (simp add: filter_update_def Let_def)

lemma filter_update_packets:
  "mc_packets (fst (filter_update kmul st t x)) = mc_packets (fst (update_and_transmit kmul st x))"
  by (simp add: filter_update_def Let_def mc_packets_append)

lemma filter_update_exit:
  "list_ex is_exit (fst (filter_update kmul st t x)) =
     (simulation_ticks st \<noteq> UINT32_MAX \<and> simulation_ticks st \<le> t)"
  using update_and_transmit_no_exit [of kmul st x]
  by (simp add: filter_update_def Let_def)

lemma delay_step_nat:
  assumes "1 \<le> unat (r :: uint)"
  shows "(r = 1) = (unat r = 1)" and "r \<noteq> 1 \<Longrightarrow> unat (r - 1) = unat r - 1"
proof -
  show "(r = 1) = (unat r = 1)"
    by (metis unat_1 word_unat_eq_iff)
  have "r \<noteq> 0" using assms by auto
  then show "unat (r - 1) = unat r - 1"
    by (simp add: unat_minus_one)
qed

lemma gating_arith:
  fixes n r i :: nat
  assumes "1 \<le> r" "r \<le> n"
  shows "(n dvd Suc 0 + (n - r)) = (r = 1)"
    and "r = 1 \<Longrightarrow> (n dvd Suc i) = (n dvd Suc (Suc i) + (n - r))"
    and "r \<noteq> 1 \<Longrightarrow> (n dvd Suc i + (n - (r - 1))) = (n dvd Suc (Suc i) + (n - r))"
proof -
  show "(n dvd Suc 0 + (n - r)) = (r = 1)"
  proof
    assume d: "n dvd Suc 0 + (n - r)"
    have "n \<le> Suc 0 + (n - r)"
      using d by (rule dvd_imp_le) simp
    then show "r = 1" using assms by simp
  next
    assume "r = 1"
    then show "n dvd Suc 0 + (n - r)" using assms by simp
  qed
  show "(n dvd Suc i) = (n dvd Suc (Suc i) + (n - r))" if "r = 1"
  proof -
    have "Suc (Suc i) + (n - r) = Suc i + n"
      using that assms by simp
    then have "(n dvd Suc (Suc i) + (n - r)) = (n dvd Suc i + n)"
      by (simp only:)
    also have "\<dots> = (n dvd Suc i)"
      by (rule dvd_add_triv_right_iff)
    finally show ?thesis by simp
  qed
  show "(n dvd Suc i + (n - (r - 1))) = (n dvd Suc (Suc i) + (n - r))" if "r \<noteq> 1"
  proof -
    have "Suc i + (n - (r - 1)) = Suc (Suc i) + (n - r)"
      using that assms by simp
    then show ?thesis by (simp only:)
  qed
qed

lemma filter_updates_length [simp]: "length (filter_updates kmul st t xs) = length xs"
  by (induction xs arbitrary: st t) (simp_all add: Let_def)

lemma filter_updates_gating:
  assumes "transmission_delay (g_filter st) = N"
      and "1 \<le> unat (delay_remaining st)"
      and "unat (delay_remaining st) \<le> unat N"
      and "i < length xs"
  shows "mc_packets (fst (filter_updates kmul st t xs ! i)) =
           (if unat N dvd Suc i + (unat N - unat (delay_remaining st))
            then map (\<lambda>d. (keys (g_filter st) ! d,
                             bitsk (filter_output (g_filter (snd (filter_updates kmul st t xs ! i))) ! d)))
                     [0 ..< unat (size_out (g_filter st))]
            else [])"
  using assms
proof (induction xs arbitrary: st t i)
  case Nil
  then show ?case by simp
next
  case (Cons x xs)
  let ?r = "delay_remaining st"
  let ?st' = "snd (filter_update kmul st t x)"
  note ar = gating_arith [OF Cons.prems(2,3)]
  note dn = delay_step_nat [OF Cons.prems(2)]
  show ?case
  proof (cases i)
    case 0
    show ?thesis
      using ar(1) dn(1)
      by (simp add: 0 Let_def filter_update_packets filter_update_snd
          update_and_transmit_packets)
  next
    case (Suc i')
    have N': "transmission_delay (g_filter ?st') = N"
      using Cons.prems(1) by (simp add: filter_update_snd update_and_transmit_fields)
    have r': "unat (delay_remaining ?st') = (if unat ?r = 1 then unat N else unat ?r - 1)"
      using dn Cons.prems(1)
      by (simp add: filter_update_snd update_and_transmit_delay)
    have lo: "1 \<le> unat (delay_remaining ?st')"
      using r' Cons.prems(2,3) by (cases "unat ?r = 1") simp_all
    have hi: "unat (delay_remaining ?st') \<le> unat N"
      using r' Cons.prems(2,3) by (cases "unat ?r = 1") simp_all
    have i': "i' < length xs"
      using Cons.prems(4) Suc by simp
    have dv: "(unat N dvd Suc i' + (unat N - unat (delay_remaining ?st'))) =
              (unat N dvd Suc (Suc i') + (unat N - unat ?r))"
    proof (cases "unat ?r = 1")
      case True
      then show ?thesis using ar(2) [of i'] r' by simp
    next
      case False
      then show ?thesis using ar(3) [of i'] r' by simp
    qed
    have fields: "keys (g_filter ?st') = keys (g_filter st)"
        "size_out (g_filter ?st') = size_out (g_filter st)"
      by (simp_all add: filter_update_snd update_and_transmit_fields)
    show ?thesis
      using Cons.IH [OF N' lo hi i', of "t + 1"]
      by (simp only: Suc filter_updates.simps Let_def nth_Cons_Suc dv fields)
  qed
qed

text \<open>
  Claim C3.  With a transmission delay \<open>N \<ge> 1\<close> and \<open>delay_remaining\<close> equal to \<open>N\<close> (as
  \<open>data_system\<close> leaves it), the invocation number \<open>i + 1\<close> of \<open>filter_update\<close> sends, when
  \<open>N\<close> divides \<open>i + 1\<close>, exactly one packet for each output dimension \<open>d\<close>, in order, with
  key \<open>keys[d]\<close> and payload \<open>bitsk(output[d])\<close> of the output computed on that tick; it
  sends no packet otherwise.  This holds for every sequence of filtered inputs.
\<close>

theorem filter_transmits_every_Nth_tick:
  assumes "transmission_delay (g_filter st) = N"
      and "1 \<le> N"
      and "delay_remaining st = N"
      and "i < length xs"
  shows "mc_packets (fst (filter_updates kmul st t xs ! i)) =
           (if unat N dvd Suc i
            then map (\<lambda>d. (keys (g_filter st) ! d,
                             bitsk (filter_output (g_filter (snd (filter_updates kmul st t xs ! i))) ! d)))
                     [0 ..< unat (size_out (g_filter st))]
            else [])"
proof -
  have "1 \<le> unat (delay_remaining st)"
    using assms(2,3) by (simp add: word_le_nat_alt)
  moreover have "unat (delay_remaining st) \<le> unat N"
    using assms(3) by simp
  ultimately show ?thesis
    using filter_updates_gating [OF assms(1) _ _ assms(4), of kmul t] assms(3) by simp
qed

theorem filter_transmits_every_Nth_tick_witness:
  "1 \<le> transmission_delay (g_filter example_filter)
   \<and> delay_remaining example_filter = transmission_delay (g_filter example_filter)
   \<and> mc_packets (fst (filter_updates mul_s1615 example_filter 1
         [[0x18000, 0x8000], [0x18000, 0x8000]] ! 0)) = []
   \<and> mc_packets (fst (filter_updates mul_s1615 example_filter 1
         [[0x18000, 0x8000], [0x18000, 0x8000]] ! 1)) = [(0xAB00, 0x10000)]"
proof -
  let ?xs = "[[0x18000, 0x8000], [0x18000, 0x8000 :: accum]]"
  have out: "filter_output (g_filter (snd (filter_updates mul_s1615 example_filter 1 ?xs ! 1)))
               = [0x10000]"
    by code_simp
  have h: "transmission_delay (g_filter example_filter) = 2" "(1 :: uint) \<le> 2"
      "delay_remaining example_filter = 2"
    by (simp_all add: example_filter_def)
  have "mc_packets (fst (filter_updates mul_s1615 example_filter 1 ?xs ! 0)) = []"
    using filter_transmits_every_Nth_tick [OF h, of 0 ?xs mul_s1615 1] by simp
  moreover have "mc_packets (fst (filter_updates mul_s1615 example_filter 1 ?xs ! 1))
      = [(0xAB00, 0x10000)]"
    using filter_transmits_every_Nth_tick [OF h, of 1 ?xs mul_s1615 1]
    unfolding out by (simp add: example_filter_def bitsk_def)
  ultimately show ?thesis
    using h by simp
qed

text \<open>
  Claim C8.  When the transmission delay is at least 1 and \<open>delay_remaining\<close> lies
  between 1 and the transmission delay before a call of \<open>filter_update\<close>, it does so
  after the call; \<open>data_system\<close> sets both to the fourth word of the system region; and
  when that word is 0, the first \<open>filter_update\<close> leaves \<open>delay_remaining\<close> at
  \<open>2^32 - 1\<close> and sends no packet.
\<close>

theorem delay_remaining_stays_in_range:
  "(1 \<le> transmission_delay (g_filter st) \<and> 1 \<le> delay_remaining st
      \<and> delay_remaining st \<le> transmission_delay (g_filter st)
    \<longrightarrow> 1 \<le> delay_remaining (snd (filter_update kmul st t x))
      \<and> delay_remaining (snd (filter_update kmul st t x))
          \<le> transmission_delay (g_filter (snd (filter_update kmul st t x))))
   \<and> delay_remaining (snd (snd (data_system buffer addr st0))) = addr 3
   \<and> transmission_delay (g_filter (snd (snd (data_system buffer addr st0)))) = addr 3
   \<and> (addr 3 = 0 \<longrightarrow>
        delay_remaining (snd (filter_update kmul (snd (snd (data_system buffer addr st0))) t x))
          = 0xFFFFFFFF
        \<and> mc_packets (fst (filter_update kmul (snd (snd (data_system buffer addr st0))) t x)) = [])"
proof -
  let ?st' = "snd (filter_update kmul st t x)"
  let ?N = "transmission_delay (g_filter st)"
  have inv: "1 \<le> delay_remaining ?st' \<and> delay_remaining ?st' \<le> transmission_delay (g_filter ?st')"
    if N: "1 \<le> ?N" and lo: "1 \<le> delay_remaining st" and hi: "delay_remaining st \<le> ?N"
  proof (cases "delay_remaining st = 1")
    case True
    then show ?thesis
      using N by (simp add: filter_update_snd update_and_transmit_delay update_and_transmit_fields)
  next
    case False
    have l: "1 \<le> unat (delay_remaining st)"
      using lo by (simp add: word_le_nat_alt)
    have "unat (delay_remaining st) \<noteq> 1"
      using False delay_step_nat(1) [OF l] by simp
    moreover have "unat (delay_remaining st - 1) = unat (delay_remaining st) - 1"
      using False delay_step_nat(2) [OF l] by simp
    moreover have "unat (delay_remaining st) \<le> unat ?N"
      using hi by (simp add: word_le_nat_alt)
    ultimately have "1 \<le> unat (delay_remaining st - 1) \<and> unat (delay_remaining st - 1) \<le> unat ?N"
      using l by arith
    then show ?thesis
      using False
      by (simp add: filter_update_snd update_and_transmit_delay update_and_transmit_fields
          word_le_nat_alt)
  qed
  let ?st1 = "snd (snd (data_system buffer addr st0))"
  have d: "delay_remaining ?st1 = addr 3" "transmission_delay (g_filter ?st1) = addr 3"
    by (simp_all add: data_system_def Let_def split: option.split)
  have z: "delay_remaining (snd (filter_update kmul ?st1 t x)) = 0xFFFFFFFF
           \<and> mc_packets (fst (filter_update kmul ?st1 t x)) = []"
    if "addr 3 = 0"
    using that d
    by (simp add: filter_update_snd filter_update_packets update_and_transmit_delay
        update_and_transmit_packets)
  from inv d z show ?thesis by blast
qed

theorem delay_remaining_stays_in_range_witness:
  "1 \<le> transmission_delay (g_filter example_filter) \<and> 1 \<le> delay_remaining example_filter
   \<and> delay_remaining example_filter \<le> transmission_delay (g_filter example_filter)
   \<and> delay_remaining (snd (filter_update mul_s1615 example_filter 1 [0x18000, 0x8000])) = 1
   \<and> delay_remaining (snd (filter_update mul_s1615
         (snd (snd (data_system (Some [0, 0]) (\<lambda>i. 0) example_filter))) 1 [0x18000, 0x8000]))
       = 0xFFFFFFFF"
  using delay_remaining_stays_in_range
    [of example_filter mul_s1615 1 "[0x18000, 0x8000]" "Some [0, 0]" "\<lambda>i. 0" example_filter]
  by (simp add: example_filter_def filter_update_snd update_and_transmit_delay)

section \<open>Halting\<close>

lemma filter_update_simulation_ticks:
  "simulation_ticks (snd (filter_update kmul st t x)) = simulation_ticks st"
  by (simp add: filter_update_snd update_and_transmit_fields)

lemma tick_successor:
  assumes "t \<le> (S :: uint)" "t \<noteq> S"
  shows "t + 1 \<le> S" and "unat S - unat t = Suc (unat S - unat (t + 1))"
proof -
  have lt: "unat t < unat S"
    using assms by (simp add: word_le_nat_alt word_unat_eq_iff)
  have "unat S < 2 ^ 32"
    using unsigned_less [of S, where 'a = nat] by simp
  then have "unat t + unat (1 :: uint) < 2 ^ LENGTH(32)"
    using lt by simp
  then have u: "unat (t + 1) = unat t + 1"
    by (simp only: unat_add_lem [THEN iffD1] unat_1)
  show "t + 1 \<le> S"
    using lt u by (simp add: word_le_nat_alt)
  show "unat S - unat t = Suc (unat S - unat (t + 1))"
    using lt u by simp
qed

lemma timer_dispatch_prefix:
  assumes "simulation_ticks st = S" "S \<noteq> UINT32_MAX" "t \<le> S"
  shows "timer_dispatch kmul st t xs = take (Suc (unat S - unat t)) (filter_updates kmul st t xs)"
  using assms
proof (induction xs arbitrary: st t)
  case Nil
  show ?case by simp
next
  case (Cons x xs)
  let ?r = "filter_update kmul st t x"
  have ex: "list_ex is_exit (fst ?r) = (t = S)"
    using Cons.prems by (auto simp: filter_update_exit)
  show ?case
  proof (cases "t = S")
    case True
    then show ?thesis
      using ex by (simp add: Let_def)
  next
    case False
    note suc = tick_successor [OF Cons.prems(3) False]
    have "simulation_ticks (snd ?r) = S"
      using Cons.prems(1) by (simp add: filter_update_simulation_ticks)
    from Cons.IH [OF this Cons.prems(2) suc(1)]
    show ?thesis
      using ex False by (simp add: Let_def suc(2))
  qed
qed

lemma filter_updates_exit:
  assumes "simulation_ticks st = S" "S \<noteq> UINT32_MAX" "t \<le> S"
      and "i < length xs" "i \<le> unat S - unat t"
  shows "list_ex is_exit (fst (filter_updates kmul st t xs ! i)) = (i = unat S - unat t)"
  using assms
proof (induction xs arbitrary: st t i)
  case Nil
  then show ?case by simp
next
  case (Cons x xs)
  let ?r = "filter_update kmul st t x"
  have ex: "list_ex is_exit (fst ?r) = (t = S)"
    using Cons.prems by (auto simp: filter_update_exit)
  have eq: "(t = S) = (unat S - unat t = 0)"
    using Cons.prems(3) by (auto simp: word_le_nat_alt word_unat_eq_iff)
  show ?case
  proof (cases i)
    case 0
    then show ?thesis
      using ex eq by (auto simp: Let_def)
  next
    case (Suc i')
    have ne: "t \<noteq> S"
      using Cons.prems(5) Suc eq by simp
    note suc = tick_successor [OF Cons.prems(3) ne]
    have "simulation_ticks (snd ?r) = S"
      using Cons.prems(1) by (simp add: filter_update_simulation_ticks)
    from Cons.IH [OF this Cons.prems(2) suc(1), of i']
    show ?thesis
      using Cons.prems(4,5) Suc suc(2) by (simp add: Let_def)
  qed
qed

text \<open>
  Claim C4.  With a finite tick count \<open>S\<close> (\<open>simulation_ticks \<noteq> UINT32_MAX\<close>) and timer
  ticks delivered from \<open>t \<le> S\<close> on, the run of the filter component is the invocations
  of \<open>filter_update\<close> for the ticks \<open>t\<close> to \<open>S\<close> and nothing after them; \<open>spin1_exit\<close> is
  called on the tick numbered \<open>S\<close> and on no tick before it (an invocation calls it
  exactly when its tick number is at least \<open>S\<close>); and every invocation, with or without
  the call of \<open>spin1_exit\<close>, performs the whole update (filter step, transform,
  transmission).
\<close>

theorem filter_halts_after_tick_S:
  assumes "simulation_ticks st = S" and "S \<noteq> UINT32_MAX" and "t \<le> S"
  shows "timer_dispatch kmul st t xs = take (Suc (unat S - unat t)) (filter_updates kmul st t xs)
       \<and> (\<forall>i < length xs. i \<le> unat S - unat t \<longrightarrow>
            list_ex is_exit (fst (filter_updates kmul st t xs ! i)) = (i = unat S - unat t))
       \<and> list_ex is_exit (fst (filter_update kmul st u y)) = (S \<le> u)
       \<and> filter (\<lambda>e. \<not> is_exit e) (fst (filter_update kmul s u y))
            = fst (update_and_transmit kmul s y)
       \<and> snd (filter_update kmul s u y) = snd (update_and_transmit kmul s y)"
proof -
  have "filter (\<lambda>e. \<not> is_exit e) (fst (update_and_transmit kmul s y))
          = fst (update_and_transmit kmul s y)"
    using update_and_transmit_no_exit [of kmul s y]
    by (simp add: list_ex_iff filter_id_conv)
  then have "filter (\<lambda>e. \<not> is_exit e) (fst (filter_update kmul s u y))
          = fst (update_and_transmit kmul s y)"
    by (simp add: filter_update_def Let_def)
  moreover have "list_ex is_exit (fst (filter_update kmul st u y)) = (S \<le> u)"
    using assms(1,2) by (simp add: filter_update_exit)
  ultimately show ?thesis
    using timer_dispatch_prefix [OF assms] filter_updates_exit [OF assms]
    by (simp add: filter_update_snd)
qed

theorem filter_halts_after_tick_S_witness:
  "simulation_ticks example_filter \<noteq> UINT32_MAX \<and> (1 :: uint) \<le> simulation_ticks example_filter
   \<and> length (timer_dispatch mul_s1615 example_filter 1
         [[0x18000, 0x8000], [0x18000, 0x8000], [0x18000, 0x8000], [0x18000, 0x8000]]) = 3
   \<and> \<not> list_ex is_exit (fst (filter_updates mul_s1615 example_filter 1
         [[0x18000, 0x8000], [0x18000, 0x8000], [0x18000, 0x8000], [0x18000, 0x8000]] ! 1))
   \<and> list_ex is_exit (fst (filter_updates mul_s1615 example_filter 1
         [[0x18000, 0x8000], [0x18000, 0x8000], [0x18000, 0x8000], [0x18000, 0x8000]] ! 2))
   \<and> list_ex is_exit (fst (filter_update mul_s1615 example_filter 3 []))"
proof -
  let ?xs = "[[0x18000, 0x8000], [0x18000, 0x8000], [0x18000, 0x8000], [0x18000, 0x8000 :: accum]]"
  have h: "simulation_ticks example_filter = 3" "(3 :: uint) \<noteq> UINT32_MAX" "(1 :: uint) \<le> 3"
    by (simp_all add: example_filter_def UINT32_MAX_def)
  note t = filter_halts_after_tick_S [OF h, of mul_s1615 ?xs 3 "[]" example_filter]
  have "length (timer_dispatch mul_s1615 example_filter 1 ?xs) = 3"
    using t by (simp only: length_take filter_updates_length) simp
  moreover have "\<not> list_ex is_exit (fst (filter_updates mul_s1615 example_filter 1 ?xs ! 1))"
    using t [THEN conjunct2, THEN conjunct1, THEN spec, of 1] by simp
  moreover have "list_ex is_exit (fst (filter_updates mul_s1615 example_filter 1 ?xs ! 2))"
    using t [THEN conjunct2, THEN conjunct1, THEN spec, of 2] by simp
  moreover have "list_ex is_exit (fst (filter_update mul_s1615 example_filter 3 []))"
    using t by simp
  ultimately show ?thesis
    using h by simp
qed

lemma timer_dispatch_unbounded:
  "simulation_ticks st = UINT32_MAX \<Longrightarrow>
   timer_dispatch kmul st t xs = filter_updates kmul st t xs"
proof (induction xs arbitrary: st t)
  case Nil
  show ?case by simp
next
  case (Cons x xs)
  have "simulation_ticks (snd (filter_update kmul st t x)) = UINT32_MAX"
    using Cons.prems by (simp add: filter_update_simulation_ticks)
  from Cons.IH [OF this] show ?case
    using Cons.prems by (simp add: Let_def filter_update_exit)
qed

text \<open>
  Claim C10.  When \<open>simulation_ticks\<close> is \<open>UINT32_MAX\<close>, \<open>filter_update\<close> calls
  \<open>spin1_exit\<close> for no tick number, so the timer dispatch never stops on the tick count.
\<close>

theorem filter_never_exits_on_UINT32_MAX:
  assumes "simulation_ticks st = UINT32_MAX"
  shows "\<not> list_ex is_exit (fst (filter_update kmul st ticks x))
       \<and> timer_dispatch kmul st t xs = filter_updates kmul st t xs"
  using assms timer_dispatch_unbounded [OF assms] by (simp add: filter_update_exit)

theorem filter_never_exits_on_UINT32_MAX_witness:
  "simulation_ticks (example_filter\<lparr>simulation_ticks := UINT32_MAX\<rparr>) = UINT32_MAX
   \<and> \<not> list_ex is_exit (fst (filter_update mul_s1615
         (example_filter\<lparr>simulation_ticks := UINT32_MAX\<rparr>) 0xFFFFFFFF [0x18000, 0x8000]))
   \<and> length (timer_dispatch mul_s1615 (example_filter\<lparr>simulation_ticks := UINT32_MAX\<rparr>)
         0xFFFFFFFE [[0x18000, 0x8000], [0x18000, 0x8000], [0x18000, 0x8000]]) = 3"
proof -
  let ?st = "example_filter\<lparr>simulation_ticks := UINT32_MAX\<rparr>"
  have h: "simulation_ticks ?st = UINT32_MAX"
    by simp
  note t = filter_never_exits_on_UINT32_MAX [OF h, of mul_s1615]
  have "length (timer_dispatch mul_s1615 ?st 0xFFFFFFFE
          [[0x18000, 0x8000], [0x18000, 0x8000], [0x18000, 0x8000]]) = 3"
    by (simp only: t [THEN conjunct2] filter_updates_length) simp
  then show ?thesis
    using t [THEN conjunct1, of "0xFFFFFFFF" "[0x18000, 0x8000]"] h by simp
qed

section \<open>Boot\<close>

lemma loaded_regions_append:
  "loaded_regions (es @ fs) = loaded_regions es @ loaded_regions fs"
  by (induction es rule: loaded_regions.induct) simp_all

lemma printf_only:
  assumes "set es \<subseteq> range IoPrintf"
  shows "loaded_regions es = []" and "\<not> list_ex is_run_action es"
  using assms by (induction es) auto

lemma data_system_events:
  "set (fst (snd (data_system buffer addr st))) \<subseteq> range IoPrintf"
  by (simp add: data_system_def Let_def split: option.split)

lemma data_get_output_keys_events:
  "set (fst (snd (data_get_output_keys ok addr st))) \<subseteq> range IoPrintf"
  by (auto simp: data_get_output_keys_def Let_def)

lemma data_get_transform_events:
  "set (fst (snd (data_get_transform ok addr st))) \<subseteq> range IoPrintf"
  by (auto simp: data_get_transform_def Let_def)

lemma data_system_ok: "fst (data_system buffer addr st) = (buffer \<noteq> None)"
  by (simp add: data_system_def Let_def split: option.split)

lemma data_get_output_keys_ok: "fst (data_get_output_keys ok addr st) = ok"
  by (simp add: data_get_output_keys_def Let_def)

lemma data_get_transform_ok: "fst (data_get_transform ok addr st) = ok"
  by (simp add: data_get_transform_def Let_def)

lemma filter_c_main_trace:
  fixes env st
  defines "r1 \<equiv> data_system (input_filter_initialise env) (region_start env 1) st"
  defines "r2 \<equiv> data_get_output_keys (malloc_keys env) (region_start env 2) (snd (snd r1))"
  defines "r5 \<equiv> data_get_transform (malloc_transform env) (region_start env 5) (snd (snd r2))"
  shows "fst (filter_c_main env st) =
     LoadRegion 1 # fst (snd r1) @
     (if input_filter_initialise env = None then [filter_failed] else
      LoadRegion 2 # fst (snd r2) @
      (if \<not> malloc_keys env then [filter_failed] else
       LoadRegion 3 #
       (if \<not> input_filter_get_filters env then [filter_failed] else
        LoadRegion 4 #
        (if \<not> input_filter_get_filter_routes env then [filter_failed] else
         LoadRegion 5 # fst (snd r5) @
         (if \<not> malloc_transform env then [filter_failed] else
          (if leadAp env then [LeadAppConfigured] else [])
          @ [SetTimerTick (machine_timestep (g_filter (snd (snd r5)))),
             CallbackOn MCPL_PACKET_RECEIVED (- 1),
             CallbackOn TIMER_TICK 2,
             Spin1Start])))))"
  unfolding filter_c_main_def r1_def r2_def r5_def
  by (simp add: case_prod_beta data_system_ok data_get_output_keys_ok data_get_transform_ok)

lemma filter_failed_facts [simp]:
  "loaded_regions [filter_failed] = []" "\<not> is_run_action filter_failed"
  "filter_failed \<noteq> Spin1Start"
  by (simp_all add: filter_failed_def)

text \<open>
  Claim C5.  At a boot of the filter component the loaders are called for the regions
  1, 2, 3, 4, 5 in this order, up to and including the first that returns false.  When
  one returns false, \<open>c_main\<close> ends with the message that initialisation failed, and
  neither sets the timer, nor registers a callback, nor starts the kernel, nor sends a
  packet.  When none does, it ends with \<open>spin1_start\<close>.
\<close>

theorem filter_c_main_loads_in_order_and_stops_on_failure:
  "loaded_regions (fst (filter_c_main env st)) = take (filter_loaders_called env) [1, 2, 3, 4, 5]
   \<and> (\<not> filter_loaders_succeed env \<longrightarrow>
        last (fst (filter_c_main env st)) = filter_failed
        \<and> \<not> list_ex is_run_action (fst (filter_c_main env st)))
   \<and> (filter_loaders_succeed env \<longrightarrow> last (fst (filter_c_main env st)) = Spin1Start)"
proof -
  let ?r1 = "data_system (input_filter_initialise env) (region_start env 1) st"
  let ?r2 = "data_get_output_keys (malloc_keys env) (region_start env 2) (snd (snd ?r1))"
  let ?r5 = "data_get_transform (malloc_transform env) (region_start env 5) (snd (snd ?r2))"
  note p1 = printf_only [OF data_system_events]
  note p2 = printf_only [OF data_get_output_keys_events]
  note p5 = printf_only [OF data_get_transform_events]
  have order: "loaded_regions (fst (filter_c_main env st)) = take (filter_loaders_called env) [1, 2, 3, 4, 5]"
    by (simp add: filter_c_main_trace loaded_regions_append p1 p2 p5 filter_loaders_called_def)
  have fail: "last (fst (filter_c_main env st)) = filter_failed
        \<and> \<not> list_ex is_run_action (fst (filter_c_main env st))"
    if "\<not> filter_loaders_succeed env"
    using that
    by (auto simp: filter_c_main_trace filter_loaders_succeed_def p1(2) p2(2) p5(2))
  have good: "last (fst (filter_c_main env st)) = Spin1Start"
    if "filter_loaders_succeed env"
    using that by (auto simp: filter_c_main_trace filter_loaders_succeed_def)
  from order fail good show ?thesis by blast
qed

theorem filter_c_main_loads_in_order_and_stops_on_failure_witness:
  "\<not> filter_loaders_succeed example_boot
   \<and> loaded_regions (fst (filter_c_main example_boot example_filter)) = [1, 2, 3]
   \<and> last (fst (filter_c_main example_boot example_filter)) = filter_failed
   \<and> \<not> list_ex is_run_action (fst (filter_c_main example_boot example_filter))"
proof -
  have f: "\<not> filter_loaders_succeed example_boot" "filter_loaders_called example_boot = 3"
    by (simp_all add: filter_loaders_succeed_def filter_loaders_called_def example_boot_def)
  show ?thesis
    using filter_c_main_loads_in_order_and_stops_on_failure [of example_boot example_filter] f
    by simp
qed

text \<open>
  Claim C1.  The claim is that a failure of any loader for the regions 2 to 13 or 15
  keeps \<open>c_main\<close> of the ensemble from setting the timer period and from calling
  \<open>spin1_start\<close>.  At the boot where \<open>data_get_bias\<close> returns false and every other step
  succeeds, \<open>c_main\<close> sets the timer period and calls \<open>spin1_start\<close>.
\<close>

theorem ensemble_c_main_starts_after_bias_failure:
  "\<not> ens_data_get_bias bias_failure_boot
   \<and> SetTimerTick 1000 \<in> set (ensemble_c_main bias_failure_boot)
   \<and> Spin1Start \<in> set (ensemble_c_main bias_failure_boot)"
  by (simp add: ensemble_c_main_def bias_failure_boot_def)

lemma ensemble_c_main_discards_results:
  "ensemble_c_main (env\<lparr>ens_data_get_bias := b2, ens_data_get_encoders := b3,
                         ens_data_get_decoders := b4, ens_data_get_keys := b5\<rparr>)
     = ensemble_c_main env"
  by (simp add: ensemble_c_main_def)

lemma ensemble_failed_facts [simp]: "\<not> is_run_action ensemble_failed"
  by (simp add: ensemble_failed_def)

lemma load_chain_events: "\<not> list_ex is_run_action (fst (load_chain rs))"
  by (induction rs rule: load_chain.induct) (auto split: prod.splits)

lemma load_chain_ok: "snd (load_chain rs) = list_all snd rs"
  by (induction rs rule: load_chain.induct) (auto split: prod.splits)

lemma ensemble_c_main_checked_failures_abort:
  assumes "\<not> (ens_data_system env \<and> ens_malloc_inhib_gain env
             \<and> ens_get_filters env \<and> ens_get_filter_routes env
             \<and> ens_get_filters_inhibitory env \<and> ens_get_filter_routes_inhibitory env
             \<and> ens_get_filters_modulatory env \<and> ens_get_filter_routes_modulatory env
             \<and> ens_get_pes env \<and> ens_record_buffer_initialise env)"
  shows "\<not> list_ex is_run_action (ensemble_c_main env)"
proof -
  let ?c = "load_chain
               [(6, ens_get_filters env), (7, ens_get_filter_routes env),
                (8, ens_get_filters_inhibitory env), (9, ens_get_filter_routes_inhibitory env),
                (11, ens_get_filters_modulatory env), (12, ens_get_filter_routes_modulatory env)]"
  have ev: "\<not> list_ex is_run_action (fst ?c)"
    by (rule load_chain_events)
  have ok: "snd ?c = (ens_get_filters env \<and> ens_get_filter_routes env
             \<and> ens_get_filters_inhibitory env \<and> ens_get_filter_routes_inhibitory env
             \<and> ens_get_filters_modulatory env \<and> ens_get_filter_routes_modulatory env)"
    by (simp only: load_chain_ok) simp
  show ?thesis
    using assms ev ok unfolding ensemble_c_main_def
    by (cases ?c) (auto simp: list_ex_iff)
qed

end
